theory Spec2Isabelle
  imports Main "HOL-Library.Word"
begin

section \<open>Strings\<close>

text \<open>
  A JavaScript string is a sequence of UTF-16 code units. The regular expressions of
  \<open>main.ts\<close> carry no \<open>u\<close> flag, so they too work on code units.
\<close>

type_synonym code_unit = "16 word"
type_synonym jsstring = "code_unit list"

definition ascii :: "string \<Rightarrow> jsstring" where
  "ascii s = map (\<lambda>c. of_nat (of_char c)) s"

definition HYPHEN :: code_unit where
  "HYPHEN = 0x2D"

definition SPACE :: code_unit where
  "SPACE = 0x20"

definition SLASH :: code_unit where
  "SLASH = 0x2F"

definition DOT :: code_unit where
  "DOT = 0x2E"

definition EQUALS :: code_unit where
  "EQUALS = 0x3D"

definition LF :: code_unit where
  "LF = 0x0A"

subsection \<open>Character classes of the regular expressions\<close>

text \<open>The class of the code units U+0300 to U+036F.\<close>

definition is_combining_mark :: "code_unit \<Rightarrow> bool" where
  "is_combining_mark c \<longleftrightarrow> 0x300 \<le> c \<and> c \<le> 0x36F"

text \<open>
  The class \<open>\s\<close> of ECMAScript, which is also what \<open>trim\<close> removes: the white space
  code points (tab, vertical tab, form feed, space, no-break space, the byte order mark and
  the space separators) and the line terminators.
\<close>

definition is_whitespace :: "code_unit \<Rightarrow> bool" where
  "is_whitespace c \<longleftrightarrow>
     (0x09 \<le> c \<and> c \<le> 0x0D) \<or> c = 0x20 \<or> c = 0xA0 \<or> c = 0x1680 \<or>
     (0x2000 \<le> c \<and> c \<le> 0x200A) \<or> c = 0x2028 \<or> c = 0x2029 \<or> c = 0x202F \<or>
     c = 0x205F \<or> c = 0x3000 \<or> c = 0xFEFF"

text \<open>The class \<open>[a-z0-9 -]\<close>; the expression removes its complement.\<close>

definition is_slug_source :: "code_unit \<Rightarrow> bool" where
  "is_slug_source c \<longleftrightarrow>
     (0x61 \<le> c \<and> c \<le> 0x7A) \<or> (0x30 \<le> c \<and> c \<le> 0x39) \<or> c = SPACE \<or> c = HYPHEN"

definition is_hyphen :: "code_unit \<Rightarrow> bool" where
  "is_hyphen c \<longleftrightarrow> c = HYPHEN"

subsection \<open>The string methods used\<close>

text \<open>\<open>s.replace(/[class]/g, r)\<close>: every code unit of the class becomes \<open>r\<close>.\<close>

definition replace_each :: "(code_unit \<Rightarrow> bool) \<Rightarrow> jsstring \<Rightarrow> jsstring \<Rightarrow> jsstring" where
  "replace_each P r s = concat (map (\<lambda>c. if P c then r else [c]) s)"

text \<open>
  \<open>s.replace(/[class]+/g, r)\<close>: the matches are found left to right, each one the longest
  run of the class that starts there, and every match becomes \<open>r\<close>.
\<close>

function replace_runs :: "(code_unit \<Rightarrow> bool) \<Rightarrow> jsstring \<Rightarrow> jsstring \<Rightarrow> jsstring" where
  "replace_runs P r [] = []"
| "replace_runs P r (c # cs) =
     (if P c then r @ replace_runs P r (dropWhile P cs) else c # replace_runs P r cs)"
  by pat_completeness auto
termination
  by (relation "measure (\<lambda>(P, r, s). length s)")
     (auto simp: length_dropWhile_le less_Suc_eq_le)

definition trim :: "jsstring \<Rightarrow> jsstring" where
  "trim s = rev (dropWhile is_whitespace (rev (dropWhile is_whitespace s)))"

text \<open>\<open>s.startsWith(p)\<close>.\<close>

definition startsWith :: "jsstring \<Rightarrow> jsstring \<Rightarrow> bool" where
  "startsWith s p \<longleftrightarrow> take (length p) s = p"

text \<open>\<open>s.split('\n')\<close>: never empty; the empty string gives one empty line.\<close>

fun split_lines :: "jsstring \<Rightarrow> jsstring list" where
  "split_lines [] = [[]]"
| "split_lines (c # cs) =
     (if c = LF then [] # split_lines cs
      else (case split_lines cs of
              [] \<Rightarrow> [[c]]
            | l # ls \<Rightarrow> (c # l) # ls))"

section \<open>The host: what the plugin calls and does not define\<close>

text \<open>
  \<open>String.prototype.normalize\<close> and \<open>toLowerCase\<close> read the Unicode tables of the
  JavaScript engine, \<open>RegExp\<close> is the engine's, \<open>isExcluded\<close> comes from a module that is
  not part of these sources, and the vault and the file manager are Obsidian's. They are
  parameters of the model, collected in one record.
\<close>

datatype norm_form = NFD | NFKD

datatype js_error = SyntaxError | ReadError | RenameError

record tfile =
  ident :: nat
  path :: jsstring
  parent_path :: jsstring
  basename :: jsstring
  extension :: jsstring

record host =
  normalize :: "norm_form \<Rightarrow> jsstring \<Rightarrow> jsstring"
  toLowerCase :: "jsstring \<Rightarrow> jsstring"
  RegExp :: "jsstring \<Rightarrow> js_error + (jsstring \<Rightarrow> bool)"
  isExcluded :: "tfile \<Rightarrow> bool"
  vault_read :: "tfile \<Rightarrow> js_error + jsstring"
  rename_rejects :: "tfile \<Rightarrow> jsstring \<Rightarrow> bool"

subsection \<open>A sample host\<close>

text \<open>
  For evaluating the model on concrete inputs: a host holding an excerpt of the Unicode
  data. Its decomposition table has the entries of U+00E9 and U+00E0 (canonical:
  the base letter and the combining acute or grave accent) and of U+00B2 (compatibility
  only: the digit 2); its lower-casing covers the ASCII letters. On the ASCII code units
  and on U+2014 both tables agree with Unicode, which leaves them unchanged. Its regular
  expression engine knows two kinds of pattern: the unbalanced \<open>(\<close>, a syntax error,
  and every other pattern read as literal text, searched anywhere in the subject. The
  theorems below evaluate the sample host on these inputs only; on other inputs it is not
  the JavaScript engine.
\<close>

definition decompose_unit :: "norm_form \<Rightarrow> code_unit \<Rightarrow> jsstring" where
  "decompose_unit f c =
     (if c = 0xE9 then [0x65, 0x301]
      else if c = 0xE0 then [0x61, 0x300]
      else if c = 0xB2 \<and> f = NFKD then [0x32]
      else [c])"

definition sample_normalize :: "norm_form \<Rightarrow> jsstring \<Rightarrow> jsstring" where
  "sample_normalize f s = concat (map (decompose_unit f) s)"

definition ascii_lower :: "code_unit \<Rightarrow> code_unit" where
  "ascii_lower c = (if 0x41 \<le> c \<and> c \<le> 0x5A then c + 0x20 else c)"

definition contains_text :: "jsstring \<Rightarrow> jsstring \<Rightarrow> bool" where
  "contains_text p s \<longleftrightarrow>
     list_ex (\<lambda>i. take (length p) (drop i s) = p) [0 ..< Suc (length s)]"

definition sample_regexp :: "jsstring \<Rightarrow> js_error + (jsstring \<Rightarrow> bool)" where
  "sample_regexp pat = (if pat = [0x28] then Inl SyntaxError else Inr (contains_text pat))"

definition sample_host :: host where
  "sample_host =
     \<lparr> normalize = sample_normalize,
       toLowerCase = map ascii_lower,
       RegExp = sample_regexp,
       isExcluded = (\<lambda>f. False),
       vault_read = (\<lambda>f. Inl ReadError),
       rename_rejects = (\<lambda>f p. False) \<rparr>"

section \<open>slugify\<close>

definition slugify :: "host \<Rightarrow> jsstring \<Rightarrow> jsstring" where
  "slugify H text =
     replace_runs is_hyphen [HYPHEN]
       (replace_runs is_whitespace [HYPHEN]
          (replace_each (\<lambda>c. \<not> is_slug_source c) []
             (toLowerCase H
                (trim
                   (replace_each is_combining_mark []
                      (normalize H NFKD text))))))"

section \<open>Heading extraction\<close>

datatype HeadingStyle = Prefix | Underline

text \<open>
  The interface \<open>LinePointer\<close>. Its field \<open>text\<close> is \<open>heading_text\<close> here, the
  name \<open>text\<close> being a keyword of Isabelle.
\<close>

record LinePointer =
  lineNumber :: nat
  heading_text :: jsstring
  style :: HeadingStyle

definition DIVIDER :: jsstring where
  "DIVIDER = ascii ''---''"

text \<open>The loop of \<open>findNoteStart\<close>, from index \<open>i\<close> on.\<close>

function frontmatter_end :: "jsstring list \<Rightarrow> nat \<Rightarrow> nat option" where
  "frontmatter_end fileLines i =
     (if i < length fileLines
      then (if fileLines ! i = DIVIDER then Some (i + 1)
            else frontmatter_end fileLines (i + 1))
      else None)"
  by pat_completeness auto
termination
  by (relation "measure (\<lambda>(ls, i). length ls - i)") auto

text \<open>\<open>fileLines[0]\<close> of an empty array is \<open>undefined\<close>, which is not \<open>'---'\<close>.\<close>

definition findNoteStart :: "jsstring list \<Rightarrow> nat" where
  "findNoteStart fileLines =
     (if fileLines \<noteq> [] \<and> fileLines ! 0 = DIVIDER
      then (case frontmatter_end fileLines 1 of Some n \<Rightarrow> n | None \<Rightarrow> 0)
      else 0)"

text \<open>\<open>l.match(/^=+$/) !== null\<close>.\<close>

definition matches_underline :: "jsstring \<Rightarrow> bool" where
  "matches_underline l \<longleftrightarrow> l \<noteq> [] \<and> list_all (\<lambda>c. c = EQUALS) l"

text \<open>
  The loop of \<open>findHeading\<close>, whose variable starts at \<open>startLine\<close>. The array holds
  strings only, so \<open>fileLines[i + 1] !== undefined\<close> says that \<open>i + 1\<close> is an index.
\<close>

function findHeading :: "jsstring list \<Rightarrow> nat \<Rightarrow> LinePointer option" where
  "findHeading fileLines i =
     (if i < length fileLines
      then (if startsWith (fileLines ! i) (ascii ''# '')
            then Some \<lparr> lineNumber = i, heading_text = drop 2 (fileLines ! i), style = Prefix \<rparr>
            else if i + 1 < length fileLines \<and> matches_underline (fileLines ! (i + 1))
            then Some \<lparr> lineNumber = i, heading_text = fileLines ! i, style = Underline \<rparr>
            else findHeading fileLines (i + 1))
      else None)"
  by pat_completeness auto
termination
  by (relation "measure (\<lambda>(ls, i). length ls - i)") auto

section \<open>Inclusion\<close>

record plugin_settings =
  includeRegex :: jsstring
  includedFiles :: "jsstring \<rightharpoonup> unit"
  useFileOpenHook :: bool
  useFileSaveHook :: bool

definition DEFAULT_SETTINGS :: plugin_settings where
  "DEFAULT_SETTINGS =
     \<lparr> includeRegex = [], includedFiles = Map.empty,
       useFileOpenHook = True, useFileSaveHook = True \<rparr>"

text \<open>
  \<open>fileIsIncluded\<close> is declared to return a boolean; one of its paths is a bare
  \<open>return;\<close>, whose value is \<open>undefined\<close>.
\<close>

datatype jsval = JSBool bool | JSUndefined

datatype 'a completion = Return 'a | Throw js_error

fun truthy :: "jsval \<Rightarrow> bool" where
  "truthy (JSBool b) = b"
| "truthy JSUndefined = False"

text \<open>The body of the \<open>try\<close> block.\<close>

definition regex_rule :: "host \<Rightarrow> plugin_settings \<Rightarrow> jsstring \<Rightarrow> jsval completion" where
  "regex_rule H s p =
     (if includeRegex s = [] then Return JSUndefined
      else (case RegExp H (includeRegex s) of
              Inl e \<Rightarrow> Throw e
            | Inr reg \<Rightarrow> Return (JSBool (reg p))))"

text \<open>
  \<open>includedFiles\<close> is a plain object, an object literal or one parsed from the saved
  data, so \<open>includedFiles[path]\<close> also finds what the object inherits from
  \<open>Object.prototype\<close>: the names below, in the engine Obsidian runs on.
\<close>

definition OBJECT_PROTOTYPE_NAMES :: "jsstring list" where
  "OBJECT_PROTOTYPE_NAMES =
     [ascii ''constructor'', ascii ''hasOwnProperty'', ascii ''isPrototypeOf'',
      ascii ''propertyIsEnumerable'', ascii ''toLocaleString'', ascii ''toString'',
      ascii ''valueOf'', ascii ''__proto__'', ascii ''__defineGetter__'',
      ascii ''__defineSetter__'', ascii ''__lookupGetter__'', ascii ''__lookupSetter__'']"

text \<open>
  \<open>includedFiles[path] !== undefined\<close>. The own values are \<open>null\<close>, which is not
  \<open>undefined\<close>, and the inherited ones are functions and objects.
\<close>

definition has_entry :: "(jsstring \<rightharpoonup> unit) \<Rightarrow> jsstring \<Rightarrow> bool" where
  "has_entry obj p \<longleftrightarrow> obj p \<noteq> None \<or> p \<in> set OBJECT_PROTOTYPE_NAMES"

text \<open>The empty \<open>catch\<close> falls through to \<open>return false\<close>.\<close>

definition fileIsIncluded :: "host \<Rightarrow> plugin_settings \<Rightarrow> tfile \<Rightarrow> jsstring \<Rightarrow> jsval completion" where
  "fileIsIncluded H s activeFile p =
     (if isExcluded H activeFile then Return (JSBool True)
      else if has_entry (includedFiles s) p then Return (JSBool True)
      else (case regex_rule H s p of
              Return v \<Rightarrow> Return v
            | Throw e \<Rightarrow> Return (JSBool False)))"

section \<open>The controller\<close>

text \<open>
  What Obsidian's \<open>TFile\<close> shows of a path: the folder before the last slash (the root
  folder's path is a slash), the base name before the last dot of the file name, the
  extension after it.
\<close>

definition name_of_path :: "jsstring \<Rightarrow> jsstring" where
  "name_of_path p = rev (takeWhile (\<lambda>c. c \<noteq> SLASH) (rev p))"

definition parent_of_path :: "jsstring \<Rightarrow> jsstring" where
  "parent_of_path p =
     (let d = rev (drop 1 (dropWhile (\<lambda>c. c \<noteq> SLASH) (rev p)))
      in if d = [] then [SLASH] else d)"

definition basename_of_name :: "jsstring \<Rightarrow> jsstring" where
  "basename_of_name n =
     (if DOT \<in> set n then rev (drop 1 (dropWhile (\<lambda>c. c \<noteq> DOT) (rev n))) else n)"

definition extension_of_name :: "jsstring \<Rightarrow> jsstring" where
  "extension_of_name n =
     (if DOT \<in> set n then rev (takeWhile (\<lambda>c. c \<noteq> DOT) (rev n)) else [])"

text \<open>The same \<open>TFile\<close> object after a rename that resolved.\<close>

definition moved_to :: "tfile \<Rightarrow> jsstring \<Rightarrow> tfile" where
  "moved_to f p =
     f\<lparr> path := p,
        parent_path := parent_of_path p,
        basename := basename_of_name (name_of_path p),
        extension := extension_of_name (name_of_path p) \<rparr>"

text \<open>
  One call of \<open>fileManager.renameFile\<close>: the value \<open>isRenameInProgress\<close> had when the
  call was made, the new path, and whether the promise resolved.
\<close>

record rename_call =
  in_flight :: bool
  target :: jsstring
  resolved :: bool

text \<open>
  The plugin's fields, the identity of the workspace's active file (the vault holds one
  \<open>TFile\<close> object for a file, so \<open>!==\<close> on files compares identities), and the calls of
  \<open>renameFile\<close> made so far.
\<close>

record world =
  isRenameInProgress :: bool
  settings :: plugin_settings
  active :: "nat option"
  rename_calls :: "rename_call list"

text \<open>
  \<open>forceRenameFile\<close>. A rejected \<open>vault.read\<close> never runs the callback. A rejected
  \<open>renameFile\<close> makes the \<open>await\<close> throw, which ends the callback there.
\<close>

definition forceRenameFile :: "host \<Rightarrow> tfile \<Rightarrow> world \<Rightarrow> tfile \<times> world" where
  "forceRenameFile H file w =
     (case vault_read H file of
        Inl e \<Rightarrow> (file, w)
      | Inr data \<Rightarrow>
          (let lines = split_lines data;
               start = findNoteStart lines
           in case findHeading lines start of
                None \<Rightarrow> (file, w)
              | Some heading \<Rightarrow>
                  (let slugifiedHeading = slugify H (heading_text heading)
                   in if length slugifiedHeading > 0 \<and>
                         slugify H (basename file) \<noteq> slugifiedHeading
                      then (let newPath = parent_path file @ [SLASH] @ slugifiedHeading @ ascii ''.md'';
                                w1 = w\<lparr>isRenameInProgress := True\<rparr>
                            in if rename_rejects H file newPath
                               then (file,
                                     w1\<lparr>rename_calls := rename_calls w1 @
                                          [\<lparr> in_flight = isRenameInProgress w1, target = newPath,
                                             resolved = False \<rparr>]\<rparr>)
                               else (moved_to file newPath,
                                     w1\<lparr>rename_calls := rename_calls w1 @
                                          [\<lparr> in_flight = isRenameInProgress w1, target = newPath,
                                             resolved = True \<rparr>],
                                        isRenameInProgress := False\<rparr>))
                      else (file, w))))"

text \<open>
  The decision of \<open>forceRenameFile\<close> apart from its effects: the new path when a rename
  is due.
\<close>

definition rename_target :: "host \<Rightarrow> tfile \<Rightarrow> jsstring option" where
  "rename_target H file =
     (case vault_read H file of
        Inl e \<Rightarrow> None
      | Inr data \<Rightarrow>
          (case findHeading (split_lines data) (findNoteStart (split_lines data)) of
             None \<Rightarrow> None
           | Some heading \<Rightarrow>
               if length (slugify H (heading_text heading)) > 0 \<and>
                  slugify H (basename file) \<noteq> slugify H (heading_text heading)
               then Some (parent_path file @ [SLASH] @ slugify H (heading_text heading) @ ascii ''.md'')
               else None))"

datatype tabstract_file = TFile tfile | TFolder jsstring

definition handleRenameFile :: "host \<Rightarrow> tabstract_file \<Rightarrow> world \<Rightarrow> tabstract_file \<times> world" where
  "handleRenameFile H file w =
     (case file of
        TFolder d \<Rightarrow> (file, w)
      | TFile f \<Rightarrow>
          if extension f \<noteq> ascii ''md'' then (file, w)
          else if active w \<noteq> Some (ident f) then (file, w)
          else (case fileIsIncluded H (settings w) f (path f) of
                  Throw e \<Rightarrow> (file, w)
                | Return v \<Rightarrow>
                    if \<not> truthy v then (file, w)
                    else (case forceRenameFile H f w of (f', w') \<Rightarrow> (TFile f', w'))))"

text \<open>The callback registered for the vault's \<open>modify\<close> event.\<close>

definition on_modify :: "host \<Rightarrow> tabstract_file \<Rightarrow> world \<Rightarrow> tabstract_file \<times> world" where
  "on_modify H file w =
     (if useFileSaveHook (settings w) then handleRenameFile H file w else (file, w))"

section \<open>The specification's words\<close>

subsection \<open>The slug algorithm of the specification\<close>

definition is_ascii_letter :: "code_unit \<Rightarrow> bool" where
  "is_ascii_letter c \<longleftrightarrow> (0x41 \<le> c \<and> c \<le> 0x5A) \<or> (0x61 \<le> c \<and> c \<le> 0x7A)"

definition is_ascii_digit :: "code_unit \<Rightarrow> bool" where
  "is_ascii_digit c \<longleftrightarrow> 0x30 \<le> c \<and> c \<le> 0x39"

text \<open>
  Steps 6 and 7: every run of code units of a class becomes a single hyphen. Read from
  the left, a member of the class followed by another member is dropped, and the last
  member of a run is the hyphen.
\<close>

fun squeeze_runs :: "(code_unit \<Rightarrow> bool) \<Rightarrow> jsstring \<Rightarrow> jsstring" where
  "squeeze_runs P [] = []"
| "squeeze_runs P [c] = [if P c then HYPHEN else c]"
| "squeeze_runs P (c # d # cs) =
     (if P c \<and> P d then squeeze_runs P (d # cs)
      else (if P c then HYPHEN else c) # squeeze_runs P (d # cs))"

text \<open>
  The seven steps in the specification's order, over the decomposition of step 1 and the
  lower-casing of step 4.
\<close>

definition slug_spec :: "(jsstring \<Rightarrow> jsstring) \<Rightarrow> (jsstring \<Rightarrow> jsstring) \<Rightarrow> jsstring \<Rightarrow> jsstring" where
  "slug_spec decompose lower t =
     (let s1 = decompose t;
          s2 = filter (\<lambda>c. \<not> is_combining_mark c) s1;
          s3 = trim s2;
          s4 = lower s3;
          s5 = filter (\<lambda>c. is_ascii_letter c \<or> is_ascii_digit c \<or> c = SPACE \<or> c = HYPHEN) s4;
          s6 = squeeze_runs is_whitespace s5
      in squeeze_runs is_hyphen s6)"

subsection \<open>What a slug looks like\<close>

definition is_slug_char :: "code_unit \<Rightarrow> bool" where
  "is_slug_char c \<longleftrightarrow>
     (0x61 \<le> c \<and> c \<le> 0x7A) \<or> (0x30 \<le> c \<and> c \<le> 0x39) \<or> c = HYPHEN"

fun adjacent_hyphens :: "jsstring \<Rightarrow> bool" where
  "adjacent_hyphens (c # d # cs) \<longleftrightarrow> (c = HYPHEN \<and> d = HYPHEN) \<or> adjacent_hyphens (d # cs)"
| "adjacent_hyphens cs \<longleftrightarrow> False"

definition is_ascii_punctuation :: "code_unit \<Rightarrow> bool" where
  "is_ascii_punctuation c \<longleftrightarrow>
     (0x21 \<le> c \<and> c \<le> 0x2F) \<or> (0x3A \<le> c \<and> c \<le> 0x40) \<or>
     (0x5B \<le> c \<and> c \<le> 0x60) \<or> (0x7B \<le> c \<and> c \<le> 0x7E)"

subsection \<open>What the Unicode tables do on ASCII\<close>

text \<open>
  Two facts of Unicode that the theorems about every host assume of its tables:
  compatibility decomposition leaves a string of ASCII code units as it is and
  lower-casing maps each of its capitals to the small letter; and no lower-cased string
  holds an ASCII capital.
\<close>

definition is_ascii :: "code_unit \<Rightarrow> bool" where
  "is_ascii c \<longleftrightarrow> c < 0x80"

definition ascii_faithful :: "host \<Rightarrow> bool" where
  "ascii_faithful H \<longleftrightarrow>
     (\<forall>s. list_all is_ascii s \<longrightarrow>
          normalize H NFKD s = s \<and> toLowerCase H s = map ascii_lower s)"

definition lower_has_no_capitals :: "host \<Rightarrow> bool" where
  "lower_has_no_capitals H \<longleftrightarrow>
     (\<forall>s. \<forall>c \<in> set (toLowerCase H s). \<not> (0x41 \<le> c \<and> c \<le> 0x5A))"

subsection \<open>The first heading of the specification\<close>

definition is_body_start :: "jsstring list \<Rightarrow> nat \<Rightarrow> bool" where
  "is_body_start ls n \<longleftrightarrow>
     (if ls \<noteq> [] \<and> ls ! 0 = DIVIDER \<and> (\<exists>j. 0 < j \<and> j < length ls \<and> ls ! j = DIVIDER)
      then (\<exists>j. n = Suc j \<and> 0 < j \<and> j < length ls \<and> ls ! j = DIVIDER \<and>
                (\<forall>k. 0 < k \<and> k < j \<longrightarrow> ls ! k \<noteq> DIVIDER))
      else n = 0)"

definition prefix_match :: "jsstring list \<Rightarrow> nat \<Rightarrow> bool" where
  "prefix_match ls i \<longleftrightarrow> i < length ls \<and> (\<exists>t. ls ! i = ascii ''# '' @ t)"

definition underline_match :: "jsstring list \<Rightarrow> nat \<Rightarrow> bool" where
  "underline_match ls i \<longleftrightarrow>
     Suc i < length ls \<and> ls ! Suc i \<noteq> [] \<and> set (ls ! Suc i) \<subseteq> {EQUALS}"

definition is_first_heading :: "jsstring list \<Rightarrow> nat \<Rightarrow> LinePointer option \<Rightarrow> bool" where
  "is_first_heading ls start r \<longleftrightarrow>
     (case r of
        None \<Rightarrow> (\<forall>i. start \<le> i \<longrightarrow> \<not> prefix_match ls i \<and> \<not> underline_match ls i)
      | Some h \<Rightarrow>
          start \<le> lineNumber h \<and> lineNumber h < length ls \<and>
          (\<forall>j. start \<le> j \<and> j < lineNumber h \<longrightarrow>
               \<not> prefix_match ls j \<and> \<not> underline_match ls j) \<and>
          (if prefix_match ls (lineNumber h)
           then style h = Prefix \<and> ls ! lineNumber h = ascii ''# '' @ heading_text h
           else underline_match ls (lineNumber h) \<and> style h = Underline \<and>
                heading_text h = ls ! lineNumber h))"

subsection \<open>Which change events are left alone\<close>

text \<open>
  An event is ignored when what changed is not a file, is not a markdown file, is not the
  active file, or is not included.
\<close>

definition event_ignored :: "host \<Rightarrow> tabstract_file \<Rightarrow> world \<Rightarrow> bool" where
  "event_ignored H file w \<longleftrightarrow>
     (case file of
        TFolder d \<Rightarrow> True
      | TFile f \<Rightarrow>
          extension f \<noteq> ascii ''md'' \<or> active w \<noteq> Some (ident f) \<or>
          (case fileIsIncluded H (settings w) f (path f) of
             Return v \<Rightarrow> \<not> truthy v
           | Throw e \<Rightarrow> True))"

section \<open>Sample inputs\<close>

text \<open>
  The sample text of the specification's slug property: letters, spaces, U+00E9 twice,
  U+00E0 and the dash U+2014.
\<close>

definition cafe_deja_vu :: jsstring where
  "cafe_deja_vu =
     [0x43, 0x61, 0x66, 0xE9, 0x20, 0x2014, 0x20, 0x44, 0xE9, 0x6A, 0xE0, 0x20, 0x56, 0x75]"

definition frontmatter_doc :: "jsstring list" where
  "frontmatter_doc = [ascii ''---'', ascii ''title: x'', ascii ''---'', ascii ''# Hello'']"

definition note_file :: tfile where
  "note_file =
     \<lparr> ident = 1, path = ascii ''docs/note.md'', parent_path = ascii ''docs'',
       basename = ascii ''note'', extension = ascii ''md'' \<rparr>"

definition idle_world :: world where
  "idle_world =
     \<lparr> isRenameInProgress = False, settings = DEFAULT_SETTINGS, active = Some 1,
       rename_calls = [] \<rparr>"

text \<open>The sample host with a vault whose every file reads as \<open>data\<close>.\<close>

definition reading :: "jsstring \<Rightarrow> host" where
  "reading data = sample_host\<lparr>vault_read := (\<lambda>f. Inr data)\<rparr>"

text \<open>The same, with a file manager that rejects every rename.\<close>

definition rejecting :: "jsstring \<Rightarrow> host" where
  "rejecting data = (reading data)\<lparr>rename_rejects := (\<lambda>f p. True)\<rparr>"

text \<open>The sample host with an exclusion module that excludes every file.\<close>

definition excluding :: host where
  "excluding = sample_host\<lparr>isExcluded := (\<lambda>f. True)\<rparr>"

text \<open>A rename is in flight, the sample file is the active one and is included by name.\<close>

definition in_flight_world :: world where
  "in_flight_world =
     \<lparr> isRenameInProgress = True,
       settings = DEFAULT_SETTINGS\<lparr>includedFiles := [ascii ''docs/note.md'' \<mapsto> ()]\<rparr>,
       active = Some 1,
       rename_calls = [] \<rparr>"

section \<open>Properties of slugify\<close>

lemma replace_each_filter: "replace_each P [] s = filter (\<lambda>c. \<not> P c) s"
  by (induction s) (simp_all add: replace_each_def)

lemma replace_runs_squeeze: "replace_runs P [HYPHEN] s = squeeze_runs P s"
proof (induction P s rule: squeeze_runs.induct)
  case (1 P)
  then show ?case by simp
next
  case (2 P c)
  then show ?case by simp
next
  case (3 P c d cs)
  show ?case
  proof (cases "P c")
    case True
    note Pc = this
    show ?thesis
    proof (cases "P d")
      case True
      have "replace_runs P [HYPHEN] (c # d # cs) = replace_runs P [HYPHEN] (d # cs)"
        using Pc True by simp
      then show ?thesis using 3 Pc True by simp
    next
      case False
      have "replace_runs P [HYPHEN] (c # d # cs) = HYPHEN # replace_runs P [HYPHEN] (d # cs)"
        using Pc False by simp
      then show ?thesis using 3 Pc False by simp
    qed
  next
    case False
    have "replace_runs P [HYPHEN] (c # d # cs) = c # replace_runs P [HYPHEN] (d # cs)"
      using False by simp
    then show ?thesis using 3 False by simp
  qed
qed

lemma slugify_steps:
  "slugify H t =
     squeeze_runs is_hyphen
       (squeeze_runs is_whitespace
          (filter is_slug_source
             (toLowerCase H (trim (filter (\<lambda>c. \<not> is_combining_mark c) (normalize H NFKD t))))))"
  by (simp add: slugify_def replace_each_filter replace_runs_squeeze)

lemma set_squeeze_runs: "set (squeeze_runs P s) \<subseteq> insert HYPHEN {c \<in> set s. \<not> P c}"
  by (induction P s rule: squeeze_runs.induct) auto

lemma squeeze_runs_Nil_iff: "squeeze_runs P s = [] \<longleftrightarrow> s = []"
  by (induction P s rule: squeeze_runs.induct) auto

lemma hd_squeeze_hyphen: "s \<noteq> [] \<Longrightarrow> hd (squeeze_runs is_hyphen s) = hd s"
  by (induction is_hyphen s rule: squeeze_runs.induct) (auto simp: is_hyphen_def)

lemma adjacent_hyphens_Cons:
  "adjacent_hyphens (c # s) \<longleftrightarrow> (c = HYPHEN \<and> s \<noteq> [] \<and> hd s = HYPHEN) \<or> adjacent_hyphens s"
  by (cases s) auto

lemma no_adjacent_squeeze: "\<not> adjacent_hyphens (squeeze_runs is_hyphen s)"
proof (induction is_hyphen s rule: squeeze_runs.induct)
  case 1
  then show ?case by simp
next
  case (2 c)
  then show ?case by simp
next
  case (3 c d cs)
  then show ?case
    by (auto simp: adjacent_hyphens_Cons squeeze_runs_Nil_iff hd_squeeze_hyphen is_hyphen_def)
qed

lemma squeeze_runs_none: "\<forall>c \<in> set s. \<not> P c \<Longrightarrow> squeeze_runs P s = s"
  by (induction P s rule: squeeze_runs.induct) auto

lemma squeeze_hyphen_fixed: "\<not> adjacent_hyphens s \<Longrightarrow> squeeze_runs is_hyphen s = s"
  by (induction is_hyphen s rule: squeeze_runs.induct) (auto simp: is_hyphen_def)

lemma slug_source_not_ws: "is_slug_source c \<Longrightarrow> \<not> is_whitespace c \<Longrightarrow> is_slug_char c"
  by (auto simp: is_slug_source_def is_whitespace_def is_slug_char_def SPACE_def HYPHEN_def)

lemma hyphen_slug_char: "is_slug_char HYPHEN"
  by (simp add: is_slug_char_def)

lemma slugify_chars: "c \<in> set (slugify H t) \<Longrightarrow> is_slug_char c"
proof -
  assume c: "c \<in> set (slugify H t)"
  let ?s5 = "filter is_slug_source
             (toLowerCase H (trim (filter (\<lambda>c. \<not> is_combining_mark c) (normalize H NFKD t))))"
  let ?s6 = "squeeze_runs is_whitespace ?s5"
  have s6: "is_slug_char d" if "d \<in> set ?s6" for d
    using that set_squeeze_runs [of is_whitespace ?s5]
    by (auto simp: hyphen_slug_char slug_source_not_ws)
  from c have "c \<in> set (squeeze_runs is_hyphen ?s6)" by (simp add: slugify_steps)
  then have "c = HYPHEN \<or> c \<in> set ?s6"
    using set_squeeze_runs [of is_hyphen ?s6] by auto
  then show ?thesis using s6 hyphen_slug_char by auto
qed

lemma slugify_no_adjacent: "\<not> adjacent_hyphens (slugify H t)"
  by (simp add: slugify_steps no_adjacent_squeeze)

lemma slug_char_facts:
  "is_slug_char c \<Longrightarrow> is_ascii c \<and> \<not> is_combining_mark c \<and> \<not> is_whitespace c \<and>
     is_slug_source c \<and> ascii_lower c = c"
  unfolding is_slug_char_def is_ascii_def is_combining_mark_def is_whitespace_def
      is_slug_source_def ascii_lower_def HYPHEN_def SPACE_def
  by unat_arith

lemma trim_none: "\<forall>c \<in> set s. \<not> is_whitespace c \<Longrightarrow> trim s = s"
proof -
  assume a: "\<forall>c \<in> set s. \<not> is_whitespace c"
  have d: "dropWhile is_whitespace xs = xs" if "\<forall>c \<in> set xs. \<not> is_whitespace c" for xs
    using that by (cases xs) auto
  show ?thesis using a by (simp add: trim_def d)
qed

lemma slugify_fixed:
  assumes H: "ascii_faithful H" and sc: "\<forall>c \<in> set y. is_slug_char c"
    and na: "\<not> adjacent_hyphens y"
  shows "slugify H y = y"
proof -
  have asc: "list_all is_ascii y" using sc by (simp add: list_all_iff slug_char_facts)
  have n: "normalize H NFKD y = y" using H asc by (simp add: ascii_faithful_def)
  have f: "filter (\<lambda>c. \<not> is_combining_mark c) y = y" using sc by (simp add: slug_char_facts)
  have t: "trim y = y" using sc by (simp add: trim_none slug_char_facts)
  have "map ascii_lower y = y" using sc by (simp add: map_idI slug_char_facts)
  then have l: "toLowerCase H y = y" using H asc by (simp add: ascii_faithful_def)
  have k: "filter is_slug_source y = y" using sc by (simp add: slug_char_facts)
  have w: "squeeze_runs is_whitespace y = y"
    using sc by (simp add: squeeze_runs_none slug_char_facts)
  show ?thesis by (simp add: slugify_steps n f t l k w squeeze_hyphen_fixed na)
qed

lemma sample_normalize_ascii: "list_all is_ascii s \<Longrightarrow> sample_normalize f s = s"
  by (induction s) (auto simp: sample_normalize_def decompose_unit_def is_ascii_def)

lemma sample_host_ascii_faithful: "ascii_faithful sample_host"
  by (simp add: ascii_faithful_def sample_host_def sample_normalize_ascii)

lemma ascii_lower_no_capital: "\<not> (0x41 \<le> ascii_lower c \<and> ascii_lower c \<le> 0x5A)"
  unfolding ascii_lower_def by unat_arith

lemma sample_host_no_capitals: "lower_has_no_capitals sample_host"
  using ascii_lower_no_capital by (auto simp: lower_has_no_capitals_def sample_host_def)

text \<open>
  C10: slugify is idempotent on every host whose tables treat ASCII as Unicode does: the
  slug of a slug is that slug, every code unit of a slug is a small ASCII letter, an ASCII
  digit or a hyphen, and no two hyphens of a slug are adjacent.
\<close>

theorem slugify_idempotent:
  assumes "ascii_faithful H"
  shows "slugify H (slugify H x) = slugify H x \<and>
         (\<forall>c \<in> set (slugify H x). is_slug_char c) \<and>
         \<not> adjacent_hyphens (slugify H x)"
  using assms slugify_fixed [of H "slugify H x"] slugify_chars [of _ H x]
    slugify_no_adjacent [of H x]
  by blast

theorem slugify_idempotent_witness:
  "ascii_faithful sample_host \<and>
   slugify sample_host (ascii ''Hello,  World - 2'') = ascii ''hello-world-2'' \<and>
   slugify sample_host (slugify sample_host (ascii ''Hello,  World - 2'')) =
     slugify sample_host (ascii ''Hello,  World - 2'') \<and>
   list_all is_slug_char (slugify sample_host (ascii ''Hello,  World - 2'')) \<and>
   \<not> adjacent_hyphens (slugify sample_host (ascii ''Hello,  World - 2''))"
proof -
  have h: "ascii_faithful sample_host" by (rule sample_host_ascii_faithful)
  have v: "slugify sample_host (ascii ''Hello,  World - 2'') = ascii ''hello-world-2''"
    by code_simp
  from slugify_idempotent [OF h, of "ascii ''Hello,  World - 2''"] h v show ?thesis
    by (simp add: list_all_iff)
qed

text \<open>
  C4, as amended: slugify is deterministic, its result depending on nothing but the text
  and the engine's normalisation and lower-casing; and the slug of the specification's
  sample text is \<open>cafe-deja-vu\<close>: the accent of U+00E9 is stripped and its base letter
  \<open>e\<close> stays.
\<close>

theorem slugify_deterministic:
  assumes "normalize H' NFKD = normalize H NFKD" and "toLowerCase H' = toLowerCase H"
  shows "slugify H' x = slugify H x \<and>
         slugify sample_host cafe_deja_vu = ascii ''cafe-deja-vu''"
proof
  show "slugify H' x = slugify H x" using assms by (simp add: slugify_def)
  show "slugify sample_host cafe_deja_vu = ascii ''cafe-deja-vu''" by code_simp
qed

theorem slugify_deterministic_witness:
  "slugify (reading (ascii ''# Title'')) cafe_deja_vu = slugify sample_host cafe_deja_vu \<and>
   slugify sample_host cafe_deja_vu = ascii ''cafe-deja-vu''"
  using slugify_deterministic [of "reading (ascii ''# Title'')" sample_host cafe_deja_vu]
  by (simp add: reading_def)

text \<open>The claim as the specification states it: the slug is not \<open>caf-deja-vu\<close>.\<close>

theorem slugify_cafe_counterexample:
  "slugify sample_host cafe_deja_vu \<noteq> ascii ''caf-deja-vu''"
  by code_simp

lemma keep_eq:
  "\<not> (0x41 \<le> c \<and> c \<le> 0x5A) \<Longrightarrow>
     (is_ascii_letter c \<or> is_ascii_digit c \<or> c = SPACE \<or> c = HYPHEN) = is_slug_source c"
  by (auto simp: is_ascii_letter_def is_ascii_digit_def is_slug_source_def)

text \<open>
  C5, as amended: on every host whose lower-casing leaves no ASCII capital, slugify is
  the seven steps of the specification in their order, where step 1 is the compatibility
  decomposition (NFKD) that \<open>main.ts\<close> asks for, not the canonical one.
\<close>

theorem slugify_refines_spec_nfkd:
  assumes "lower_has_no_capitals H"
  shows "slugify H x = slug_spec (normalize H NFKD) (toLowerCase H) x"
proof -
  let ?s4 = "toLowerCase H (trim (filter (\<lambda>c. \<not> is_combining_mark c) (normalize H NFKD x)))"
  have "\<forall>c \<in> set ?s4. \<not> (0x41 \<le> c \<and> c \<le> 0x5A)"
    using assms by (simp add: lower_has_no_capitals_def)
  then have "filter (\<lambda>c. is_ascii_letter c \<or> is_ascii_digit c \<or> c = SPACE \<or> c = HYPHEN) ?s4
      = filter is_slug_source ?s4"
    by (intro filter_cong) (simp_all add: keep_eq)
  then show ?thesis by (simp add: slugify_steps slug_spec_def)
qed

theorem slugify_refines_spec_nfkd_witness:
  "lower_has_no_capitals sample_host \<and>
   slugify sample_host [0xB2] = slug_spec (normalize sample_host NFKD) (toLowerCase sample_host) [0xB2] \<and>
   slugify sample_host [0xB2] = ascii ''2''"
proof -
  have h: "lower_has_no_capitals sample_host" by (rule sample_host_no_capitals)
  have v: "slugify sample_host [0xB2] = ascii ''2''" by code_simp
  from slugify_refines_spec_nfkd [OF h, of "[0xB2]"] h v show ?thesis by simp
qed

text \<open>
  The claim with the canonical decomposition of the specification: U+00B2 has a
  compatibility decomposition only, so the code's slug is \<open>2\<close> and the specification's
  steps give the empty string.
\<close>

theorem slugify_nfd_counterexample:
  "slugify sample_host [0xB2] \<noteq> slug_spec (normalize sample_host NFD) (toLowerCase sample_host) [0xB2]"
  by code_simp

lemma punct_facts:
  "is_ascii_punctuation c \<Longrightarrow> c \<noteq> HYPHEN \<Longrightarrow>
     is_ascii c \<and> \<not> is_combining_mark c \<and> \<not> is_whitespace c \<and> ascii_lower c = c \<and>
     \<not> is_slug_source c"
  unfolding is_ascii_punctuation_def is_ascii_def is_combining_mark_def is_whitespace_def
    ascii_lower_def is_slug_source_def HYPHEN_def SPACE_def
  by unat_arith

lemma slugify_punctuation:
  assumes H: "ascii_faithful H" and p: "\<forall>c \<in> set t. is_ascii_punctuation c \<and> c \<noteq> HYPHEN"
  shows "slugify H t = []"
proof -
  have asc: "list_all is_ascii t" using p by (simp add: list_all_iff punct_facts)
  have n: "normalize H NFKD t = t" using H asc by (simp add: ascii_faithful_def)
  have f: "filter (\<lambda>c. \<not> is_combining_mark c) t = t" using p by (simp add: punct_facts)
  have tr: "trim t = t" using p by (simp add: trim_none punct_facts)
  have "map ascii_lower t = t" using p by (simp add: map_idI punct_facts)
  then have l: "toLowerCase H t = t" using H asc by (simp add: ascii_faithful_def)
  have k: "filter is_slug_source t = []" using p by (simp add: punct_facts)
  show ?thesis by (simp add: slugify_steps n f tr l k)
qed


section \<open>Properties of heading extraction\<close>

declare frontmatter_end.simps [simp del]
declare findHeading.simps [simp del]

lemma frontmatter_end_Some:
  "frontmatter_end ls i = Some n \<Longrightarrow>
     \<exists>j. n = Suc j \<and> i \<le> j \<and> j < length ls \<and> ls ! j = DIVIDER \<and>
         (\<forall>k. i \<le> k \<and> k < j \<longrightarrow> ls ! k \<noteq> DIVIDER)"
proof (induction ls i rule: frontmatter_end.induct)
  case (1 ls i)
  show ?case
  proof (cases "i < length ls")
    case False
    with "1.prems" show ?thesis by (simp add: frontmatter_end.simps [of ls i])
  next
    case True
    note lt = this
    show ?thesis
    proof (cases "ls ! i = DIVIDER")
      case True
      with lt "1.prems" have "n = Suc i" by (simp add: frontmatter_end.simps [of ls i])
      with lt True show ?thesis by auto
    next
      case False
      with lt "1.prems" have "frontmatter_end ls (i + 1) = Some n"
        by (simp add: frontmatter_end.simps [of ls i])
      from "1.IH" [OF lt False this] obtain j where
        j: "n = Suc j" "i + 1 \<le> j" "j < length ls" "ls ! j = DIVIDER"
           "\<forall>k. i + 1 \<le> k \<and> k < j \<longrightarrow> ls ! k \<noteq> DIVIDER"
        by blast
      have "\<forall>k. i \<le> k \<and> k < j \<longrightarrow> ls ! k \<noteq> DIVIDER"
      proof (intro allI impI)
        fix k assume k: "i \<le> k \<and> k < j"
        show "ls ! k \<noteq> DIVIDER"
        proof (cases "k = i")
          case True
          with False show ?thesis by simp
        next
          case False
          with k have "i + 1 \<le> k \<and> k < j" by simp
          with j(5) show ?thesis by blast
        qed
      qed
      with j show ?thesis by auto
    qed
  qed
qed

lemma frontmatter_end_None:
  "frontmatter_end ls i = None \<Longrightarrow> i \<le> j \<Longrightarrow> j < length ls \<Longrightarrow> ls ! j \<noteq> DIVIDER"
proof (induction ls i rule: frontmatter_end.induct)
  case (1 ls i)
  from "1.prems" have lt: "i < length ls" by simp
  from "1.prems"(1) lt have nd: "ls ! i \<noteq> DIVIDER"
    by (simp add: frontmatter_end.simps [of ls i] split: if_splits)
  from "1.prems"(1) lt nd have rest: "frontmatter_end ls (i + 1) = None"
    by (simp add: frontmatter_end.simps [of ls i])
  show ?case
  proof (cases "j = i")
    case True
    with nd show ?thesis by simp
  next
    case False
    with "1.prems" have "i + 1 \<le> j" by simp
    from "1.IH" [OF lt nd rest this "1.prems"(3)] show ?thesis .
  qed
qed

lemma findNoteStart_body_start: "is_body_start ls (findNoteStart ls)"
proof (cases "ls \<noteq> [] \<and> ls ! 0 = DIVIDER")
  case False
  then show ?thesis by (auto simp: is_body_start_def findNoteStart_def)
next
  case True
  show ?thesis
  proof (cases "frontmatter_end ls 1")
    case None
    have "\<not> (\<exists>j. 0 < j \<and> j < length ls \<and> ls ! j = DIVIDER)"
      using frontmatter_end_None [OF None] by (metis One_nat_def Suc_leI)
    with True None show ?thesis by (simp add: is_body_start_def findNoteStart_def)
  next
    case (Some n)
    from frontmatter_end_Some [OF Some] obtain j where
      j: "n = Suc j" "1 \<le> j" "j < length ls" "ls ! j = DIVIDER"
         "\<forall>k. 1 \<le> k \<and> k < j \<longrightarrow> ls ! k \<noteq> DIVIDER"
      by blast
    have ex: "\<exists>j. 0 < j \<and> j < length ls \<and> ls ! j = DIVIDER"
      using j by (intro exI [of _ j]) simp
    have "\<exists>j'. n = Suc j' \<and> 0 < j' \<and> j' < length ls \<and> ls ! j' = DIVIDER \<and>
                (\<forall>k. 0 < k \<and> k < j' \<longrightarrow> ls ! k \<noteq> DIVIDER)"
      using j by (intro exI [of _ j]) (simp add: Suc_le_eq)
    with True Some ex show ?thesis by (simp add: is_body_start_def findNoteStart_def)
  qed
qed

lemma startsWith_hash: "startsWith l (ascii ''# '') \<longleftrightarrow> (\<exists>t. l = ascii ''# '' @ t)"
proof
  assume "startsWith l (ascii ''# '')"
  then have "take 2 l = ascii ''# ''" by (simp add: startsWith_def ascii_def numeral_2_eq_2)
  then have "l = ascii ''# '' @ drop 2 l" by (metis append_take_drop_id)
  then show "\<exists>t. l = ascii ''# '' @ t" ..
next
  assume "\<exists>t. l = ascii ''# '' @ t"
  then show "startsWith l (ascii ''# '')" by (auto simp: startsWith_def)
qed

lemma startsWith_hash_drop: "startsWith l (ascii ''# '') \<Longrightarrow> l = ascii ''# '' @ drop 2 l"
proof -
  assume "startsWith l (ascii ''# '')"
  then have "take 2 l = ascii ''# ''" by (simp add: startsWith_def ascii_def numeral_2_eq_2)
  then show ?thesis by (metis append_take_drop_id)
qed

lemma matches_underline_iff: "matches_underline l \<longleftrightarrow> l \<noteq> [] \<and> set l \<subseteq> {EQUALS}"
  by (auto simp: matches_underline_def list_all_iff)

lemma heading_here:
  "i < length ls \<Longrightarrow> prefix_match ls i \<longleftrightarrow> startsWith (ls ! i) (ascii ''# '')"
  "underline_match ls i \<longleftrightarrow> i + 1 < length ls \<and> matches_underline (ls ! (i + 1))"
  by (auto simp: prefix_match_def underline_match_def startsWith_hash matches_underline_iff)

lemma no_match_beyond: "length ls \<le> i \<Longrightarrow> \<not> prefix_match ls i \<and> \<not> underline_match ls i"
  by (simp add: prefix_match_def underline_match_def)

lemma findHeading_first: "is_first_heading ls i (findHeading ls i)"
proof (induction ls i rule: findHeading.induct)
  case (1 ls i)
  show ?case
  proof (cases "i < length ls")
    case False
    then have "findHeading ls i = None" by (simp add: findHeading.simps [of ls i])
    with False show ?thesis by (simp add: is_first_heading_def no_match_beyond)
  next
    case True
    note lt = this
    show ?thesis
    proof (cases "startsWith (ls ! i) (ascii ''# '')")
      case True
      with lt have "findHeading ls i =
          Some \<lparr> lineNumber = i, heading_text = drop 2 (ls ! i), style = Prefix \<rparr>"
        by (simp add: findHeading.simps [of ls i])
      with lt True startsWith_hash_drop [OF True] show ?thesis
        by (auto simp: is_first_heading_def heading_here)
    next
      case False
      note np = this
      show ?thesis
      proof (cases "i + 1 < length ls \<and> matches_underline (ls ! (i + 1))")
        case True
        with lt np have "findHeading ls i =
            Some \<lparr> lineNumber = i, heading_text = ls ! i, style = Underline \<rparr>"
          by (simp add: findHeading.simps [of ls i])
        with lt np True show ?thesis
          by (auto simp: is_first_heading_def heading_here)
      next
        case False
        with lt np have eq: "findHeading ls i = findHeading ls (i + 1)"
          by (auto simp: findHeading.simps [of ls i])
        have here: "\<not> prefix_match ls i \<and> \<not> underline_match ls i"
          using lt np False by (simp add: heading_here)
        have step: "P j" if "i \<le> j" "P i" "\<And>j. i + 1 \<le> j \<Longrightarrow> P j" for P j
          using that by (cases "j = i") auto
        from "1.IH" [OF lt np False] have ih: "is_first_heading ls (i + 1) (findHeading ls (i + 1))" .
        show ?thesis
        proof (cases "findHeading ls (i + 1)")
          case None
          with ih have "\<forall>j. i + 1 \<le> j \<longrightarrow> \<not> prefix_match ls j \<and> \<not> underline_match ls j"
            by (simp add: is_first_heading_def)
          with here have "\<forall>j. i \<le> j \<longrightarrow> \<not> prefix_match ls j \<and> \<not> underline_match ls j"
            by (metis Suc_eq_plus1 Suc_leI le_neq_implies_less)
          with None eq show ?thesis by (simp add: is_first_heading_def)
        next
          case (Some h)
          with ih have a: "i + 1 \<le> lineNumber h" "lineNumber h < length ls"
            and b: "\<forall>j. i + 1 \<le> j \<and> j < lineNumber h \<longrightarrow>
                      \<not> prefix_match ls j \<and> \<not> underline_match ls j"
            and c: "if prefix_match ls (lineNumber h)
                    then style h = Prefix \<and> ls ! lineNumber h = ascii ''# '' @ heading_text h
                    else underline_match ls (lineNumber h) \<and> style h = Underline \<and>
                         heading_text h = ls ! lineNumber h"
            by (simp_all add: is_first_heading_def)
          from b here have b': "\<forall>j. i \<le> j \<and> j < lineNumber h \<longrightarrow>
                      \<not> prefix_match ls j \<and> \<not> underline_match ls j"
            by (metis Suc_eq_plus1 Suc_leI le_neq_implies_less)
          from a have "i \<le> lineNumber h" by simp
          with a b' c Some eq show ?thesis by (simp add: is_first_heading_def)
        qed
      qed
    qed
  qed
qed

text \<open>
  C8: the body starts after the closing divider of a front matter that opens at line 0,
  and at line 0 otherwise; the heading found is the match of lowest index from there, a
  line beginning with \<open># \<close> (the text is the rest of the line) or a line followed by a
  line of one or more \<open>=\<close> (the text is the line itself), the first form winning on a
  line that has both; and no heading is found exactly when no line from the body start
  on has a match.
\<close>

theorem heading_extraction_first_match:
  "is_body_start ls (findNoteStart ls) \<and>
   is_first_heading ls (findNoteStart ls) (findHeading ls (findNoteStart ls))"
  by (simp add: findNoteStart_body_start findHeading_first)

theorem heading_extraction_first_match_witness:
  "is_body_start frontmatter_doc (findNoteStart frontmatter_doc) \<and>
   is_first_heading frontmatter_doc (findNoteStart frontmatter_doc)
     (findHeading frontmatter_doc (findNoteStart frontmatter_doc)) \<and>
   findNoteStart frontmatter_doc = 3 \<and>
   findHeading frontmatter_doc 3 =
     Some \<lparr> lineNumber = 3, heading_text = ascii ''Hello'', style = Prefix \<rparr>"
proof -
  have a: "findNoteStart frontmatter_doc = 3" by code_simp
  have b: "findHeading frontmatter_doc 3 =
     Some \<lparr> lineNumber = 3, heading_text = ascii ''Hello'', style = Prefix \<rparr>" by code_simp
  from heading_extraction_first_match [of frontmatter_doc] a b show ?thesis by simp
qed

section \<open>Properties of inclusion\<close>

text \<open>
  C6: a file that the exclusion module reports as excluded is included, whatever the
  settings hold and whatever the regular expression engine would answer: the first test
  decides alone.
\<close>

theorem excluded_file_is_included:
  "isExcluded H activeFile \<Longrightarrow> fileIsIncluded H s activeFile p = Return (JSBool True)"
  by (simp add: fileIsIncluded_def)

theorem excluded_file_is_included_witness:
  "isExcluded excluding note_file \<and>
   RegExp excluding [0x28] = Inl SyntaxError \<and>
   fileIsIncluded excluding (DEFAULT_SETTINGS\<lparr>includeRegex := [0x28]\<rparr>) note_file (path note_file) =
     Return (JSBool True)"
proof -
  have h: "isExcluded excluding note_file" by (simp add: excluding_def)
  have r: "RegExp excluding [0x28] = Inl SyntaxError"
    by (simp add: excluding_def sample_host_def sample_regexp_def)
  from excluded_file_is_included [OF h] h r show ?thesis by simp
qed

text \<open>
  C7: with the default settings (no file included by name, the empty regular expression)
  and a file that is not excluded, \<open>fileIsIncluded\<close> returns \<open>undefined\<close>, not \<open>false\<close>.
\<close>

theorem fileIsIncluded_empty_regex_undefined:
  "fileIsIncluded sample_host DEFAULT_SETTINGS note_file (path note_file) = Return JSUndefined"
  by code_simp

lemma fileIsIncluded_never_throws: "fileIsIncluded H s f p \<noteq> Throw e"
  by (simp add: fileIsIncluded_def split: completion.splits)

lemma fileIsIncluded_regex_false:
  assumes "\<not> isExcluded H f" and "\<not> has_entry (includedFiles s) p"
    and "includeRegex s \<noteq> []"
    and "RegExp H (includeRegex s) = Inl e \<or>
         (\<exists>reg. RegExp H (includeRegex s) = Inr reg \<and> \<not> reg p)"
  shows "fileIsIncluded H s f p = Return (JSBool False)"
  using assms by (auto simp: fileIsIncluded_def regex_rule_def)

text \<open>A name that every plain object inherits counts as included.\<close>

lemma fileIsIncluded_inherited_name:
  "fileIsIncluded sample_host DEFAULT_SETTINGS note_file (ascii ''constructor'') =
     Return (JSBool True)"
  by code_simp

section \<open>Properties of the controller\<close>

lemma forceRenameFile_target:
  "forceRenameFile H file w =
     (case rename_target H file of
        None \<Rightarrow> (file, w)
      | Some newPath \<Rightarrow>
          if rename_rejects H file newPath
          then (file,
                w\<lparr>isRenameInProgress := True,
                   rename_calls := rename_calls w @
                     [\<lparr> in_flight = True, target = newPath, resolved = False \<rparr>]\<rparr>)
          else (moved_to file newPath,
                w\<lparr>isRenameInProgress := False,
                   rename_calls := rename_calls w @
                     [\<lparr> in_flight = True, target = newPath, resolved = True \<rparr>]\<rparr>))"
  by (simp add: forceRenameFile_def rename_target_def Let_def split: sum.splits option.splits)








lemma rename_target_empty_slug:
  assumes "vault_read H file = Inr data"
    and "findHeading (split_lines data) (findNoteStart (split_lines data)) = Some h"
    and "slugify H (heading_text h) = []"
  shows "rename_target H file = None"
  using assms by (simp add: rename_target_def)

lemma reading_ascii_faithful: "ascii_faithful (reading d)"
  using sample_host_ascii_faithful by (simp add: ascii_faithful_def reading_def)

text \<open>
  C1: a heading \<open>Hello\<close> in the file \<open>docs/note.md\<close> and a file manager that rejects the
  rename: the flag is set when \<open>renameFile\<close> is called and is still set afterwards.
\<close>

theorem forceRenameFile_rejected_keeps_flag:
  "fst (forceRenameFile (rejecting (ascii ''# Hello'')) note_file idle_world) = note_file \<and>
   rename_calls (snd (forceRenameFile (rejecting (ascii ''# Hello'')) note_file idle_world)) =
     [\<lparr> in_flight = True, target = ascii ''docs/hello.md'', resolved = False \<rparr>] \<and>
   isRenameInProgress (snd (forceRenameFile (rejecting (ascii ''# Hello'')) note_file idle_world)) = True"
  by code_simp

lemma forceRenameFile_resolved_resets:
  "rename_target H f = Some p \<Longrightarrow> \<not> rename_rejects H f p \<Longrightarrow>
     \<not> isRenameInProgress (snd (forceRenameFile H f w)) \<and>
     rename_calls (snd (forceRenameFile H f w)) =
       rename_calls w @ [\<lparr> in_flight = True, target = p, resolved = True \<rparr>]"
  by (simp add: forceRenameFile_target)

lemma forceRenameFile_rejected_stays:
  "rename_target H f = Some p \<Longrightarrow> rename_rejects H f p \<Longrightarrow>
     isRenameInProgress (snd (forceRenameFile H f w)) \<and>
     rename_calls (snd (forceRenameFile H f w)) =
       rename_calls w @ [\<lparr> in_flight = True, target = p, resolved = False \<rparr>]"
  by (simp add: forceRenameFile_target)

lemma handleRenameFile_ignored:
  "event_ignored H file w \<Longrightarrow> handleRenameFile H file w = (file, w)"
  by (auto simp: event_ignored_def handleRenameFile_def
      split: tabstract_file.splits completion.splits)

lemma handleRenameFile_evaluated:
  "\<not> event_ignored H (TFile f) w \<Longrightarrow>
     handleRenameFile H (TFile f) w =
       (TFile (fst (forceRenameFile H f w)), snd (forceRenameFile H f w))"
  by (auto simp: event_ignored_def handleRenameFile_def
      split: completion.splits prod.splits)

lemma rename_target_due:
  assumes "vault_read H f = Inr data"
    and "findHeading (split_lines data) (findNoteStart (split_lines data)) = Some h"
    and "slugify H (heading_text h) \<noteq> []"
    and "slugify H (basename f) \<noteq> slugify H (heading_text h)"
  shows "rename_target H f =
           Some (parent_path f @ [SLASH] @ slugify H (heading_text h) @ ascii ''.md'')"
  using assms by (simp add: rename_target_def)

text \<open>
  C2, as amended: the handlers of a change event never read \<open>isRenameInProgress\<close>, so an
  event that arrives while the flag is set is handled as any other. Whether an event is
  ignored does not depend on the flag; an ignored event changes nothing; an event that is
  not ignored is evaluated by \<open>forceRenameFile\<close>, and when the document has a heading whose
  slug is not empty and differs from the slug of the base name, \<open>renameFile\<close> is called
  with the new path; the callback of the \<open>modify\<close> event passes the event on when the save
  hook is on and ignores it otherwise; and the file that the handlers leave and the calls
  they make are the same whatever the flag holds.
\<close>

theorem handleRenameFile_ignores_flag:
  "event_ignored H ev (w\<lparr>isRenameInProgress := b\<rparr>) = event_ignored H ev w \<and>
   (event_ignored H ev w \<longrightarrow> handleRenameFile H ev w = (ev, w)) \<and>
   (ev = TFile f \<and> \<not> event_ignored H ev w \<longrightarrow>
      handleRenameFile H ev w =
        (TFile (fst (forceRenameFile H f w)), snd (forceRenameFile H f w))) \<and>
   (ev = TFile f \<and> \<not> event_ignored H ev w \<and> vault_read H f = Inr data \<and>
    findHeading (split_lines data) (findNoteStart (split_lines data)) = Some h \<and>
    slugify H (heading_text h) \<noteq> [] \<and>
    slugify H (basename f) \<noteq> slugify H (heading_text h) \<longrightarrow>
      rename_calls (snd (handleRenameFile H ev w)) =
        rename_calls w @
          [\<lparr> in_flight = True,
             target = parent_path f @ [SLASH] @ slugify H (heading_text h) @ ascii ''.md'',
             resolved = (\<not> rename_rejects H f
               (parent_path f @ [SLASH] @ slugify H (heading_text h) @ ascii ''.md'')) \<rparr>]) \<and>
   on_modify H ev w =
     (if useFileSaveHook (settings w) then handleRenameFile H ev w else (ev, w)) \<and>
   fst (handleRenameFile H ev (w\<lparr>isRenameInProgress := b\<rparr>)) = fst (handleRenameFile H ev w) \<and>
   rename_calls (snd (handleRenameFile H ev (w\<lparr>isRenameInProgress := b\<rparr>))) =
     rename_calls (snd (handleRenameFile H ev w)) \<and>
   fst (on_modify H ev (w\<lparr>isRenameInProgress := b\<rparr>)) = fst (on_modify H ev w) \<and>
   rename_calls (snd (on_modify H ev (w\<lparr>isRenameInProgress := b\<rparr>))) =
     rename_calls (snd (on_modify H ev w))"
proof -
  have a: "event_ignored H ev (w\<lparr>isRenameInProgress := b\<rparr>) = event_ignored H ev w"
    by (simp add: event_ignored_def split: tabstract_file.splits)
  have c: "ev = TFile f \<and> \<not> event_ignored H ev w \<longrightarrow>
      handleRenameFile H ev w =
        (TFile (fst (forceRenameFile H f w)), snd (forceRenameFile H f w))"
    using handleRenameFile_evaluated by blast
  have d: "ev = TFile f \<and> \<not> event_ignored H ev w \<and> vault_read H f = Inr data \<and>
    findHeading (split_lines data) (findNoteStart (split_lines data)) = Some h \<and>
    slugify H (heading_text h) \<noteq> [] \<and>
    slugify H (basename f) \<noteq> slugify H (heading_text h) \<longrightarrow>
      rename_calls (snd (handleRenameFile H ev w)) =
        rename_calls w @
          [\<lparr> in_flight = True,
             target = parent_path f @ [SLASH] @ slugify H (heading_text h) @ ascii ''.md'',
             resolved = (\<not> rename_rejects H f
               (parent_path f @ [SLASH] @ slugify H (heading_text h) @ ascii ''.md'')) \<rparr>]"
  proof (intro impI, elim conjE)
    assume f: "ev = TFile f" and ni: "\<not> event_ignored H ev w"
      and r: "vault_read H f = Inr data"
      and h: "findHeading (split_lines data) (findNoteStart (split_lines data)) = Some h"
      and ne: "slugify H (heading_text h) \<noteq> []"
      and df: "slugify H (basename f) \<noteq> slugify H (heading_text h)"
    from f ni have "handleRenameFile H ev w =
        (TFile (fst (forceRenameFile H f w)), snd (forceRenameFile H f w))"
      using handleRenameFile_evaluated by blast
    then show "rename_calls (snd (handleRenameFile H ev w)) =
        rename_calls w @
          [\<lparr> in_flight = True,
             target = parent_path f @ [SLASH] @ slugify H (heading_text h) @ ascii ''.md'',
             resolved = (\<not> rename_rejects H f
               (parent_path f @ [SLASH] @ slugify H (heading_text h) @ ascii ''.md'')) \<rparr>]"
      using rename_target_due [OF r h ne df] by (simp add: forceRenameFile_target)
  qed
  have e: "fst (handleRenameFile H ev (w\<lparr>isRenameInProgress := b\<rparr>)) = fst (handleRenameFile H ev w) \<and>
   rename_calls (snd (handleRenameFile H ev (w\<lparr>isRenameInProgress := b\<rparr>))) =
     rename_calls (snd (handleRenameFile H ev w)) \<and>
   fst (on_modify H ev (w\<lparr>isRenameInProgress := b\<rparr>)) = fst (on_modify H ev w) \<and>
   rename_calls (snd (on_modify H ev (w\<lparr>isRenameInProgress := b\<rparr>))) =
     rename_calls (snd (on_modify H ev w))"
    by (simp add: on_modify_def handleRenameFile_def forceRenameFile_target
        split: tabstract_file.splits completion.splits option.splits)
  show ?thesis
    using a c d e handleRenameFile_ignored [of H ev w] by (simp add: on_modify_def)
qed

theorem handleRenameFile_ignores_flag_witness:
  "isRenameInProgress in_flight_world \<and>
   \<not> event_ignored (reading (ascii ''# Hello'')) (TFile note_file) in_flight_world \<and>
   rename_calls (snd (handleRenameFile (reading (ascii ''# Hello'')) (TFile note_file) in_flight_world)) =
     [\<lparr> in_flight = True, target = ascii ''docs/hello.md'', resolved = True \<rparr>] \<and>
   event_ignored (reading (ascii ''# Hello'')) (TFile (note_file\<lparr>extension := ascii ''txt''\<rparr>))
     in_flight_world \<and>
   handleRenameFile (reading (ascii ''# Hello'')) (TFile (note_file\<lparr>extension := ascii ''txt''\<rparr>))
     in_flight_world = (TFile (note_file\<lparr>extension := ascii ''txt''\<rparr>), in_flight_world)"
proof -
  let ?H = "reading (ascii ''# Hello'')"
  let ?h = "\<lparr> lineNumber = 0, heading_text = ascii ''Hello'', style = Prefix \<rparr>"
  let ?t = "TFile (note_file\<lparr>extension := ascii ''txt''\<rparr>)"
  let ?p = "parent_path note_file @ [SLASH] @ slugify ?H (heading_text ?h) @ ascii ''.md''"
  have fl: "isRenameInProgress in_flight_world" by (simp add: in_flight_world_def)
  have ni: "\<not> event_ignored ?H (TFile note_file) in_flight_world" by code_simp
  have ig: "event_ignored ?H ?t in_flight_world" by code_simp
  have r: "vault_read ?H note_file = Inr (ascii ''# Hello'')" by (simp add: reading_def)
  have h: "findHeading (split_lines (ascii ''# Hello'')) (findNoteStart (split_lines (ascii ''# Hello''))) =
      Some ?h" by code_simp
  have ne: "slugify ?H (heading_text ?h) \<noteq> []" by code_simp
  have df: "slugify ?H (basename note_file) \<noteq> slugify ?H (heading_text ?h)" by code_simp
  have tg: "?p = ascii ''docs/hello.md''" by code_simp
  have rj: "\<not> rename_rejects ?H note_file ?p" by (simp add: reading_def sample_host_def)
  have rc: "rename_calls in_flight_world = []" by (simp add: in_flight_world_def)
  note inst = handleRenameFile_ignores_flag [where H = ?H and w = in_flight_world and b = True
      and f = note_file and data = "ascii ''# Hello''" and h = ?h]
  from inst [where ev = "TFile note_file"] ni r h ne df
  have "rename_calls (snd (handleRenameFile ?H (TFile note_file) in_flight_world)) =
     rename_calls in_flight_world @
       [\<lparr> in_flight = True, target = ?p, resolved = (\<not> rename_rejects ?H note_file ?p) \<rparr>]"
    by blast
  with tg rj rc
  have one: "rename_calls (snd (handleRenameFile ?H (TFile note_file) in_flight_world)) =
     [\<lparr> in_flight = True, target = ascii ''docs/hello.md'', resolved = True \<rparr>]"
    by simp
  from inst [where ev = ?t] ig
  have two: "handleRenameFile ?H ?t in_flight_world = (?t, in_flight_world)" by blast
  from fl ni ig one two show ?thesis by simp
qed


text \<open>
  The claim as the specification states it: an event of the active, included file
  \<open>docs/note.md\<close> with the heading \<open>Hello\<close>, delivered while the flag is set, is
  evaluated and the file is renamed.
\<close>

theorem handleRenameFile_in_flight_counterexample:
  "isRenameInProgress in_flight_world \<and>
   fst (handleRenameFile (reading (ascii ''# Hello'')) (TFile note_file) in_flight_world) =
     TFile \<lparr> ident = 1, path = ascii ''docs/hello.md'', parent_path = ascii ''docs'',
             basename = ascii ''hello'', extension = ascii ''md'' \<rparr> \<and>
   rename_calls (snd (handleRenameFile (reading (ascii ''# Hello'')) (TFile note_file) in_flight_world)) =
     [\<lparr> in_flight = True, target = ascii ''docs/hello.md'', resolved = True \<rparr>]"
  by code_simp

text \<open>
  C3, as amended: on every host whose tables treat ASCII as Unicode does, a text of ASCII
  punctuation other than the hyphen has the empty slug, and \<open>forceRenameFile\<close> on a
  document whose first heading has such a text changes nothing, whatever the file is
  called.
\<close>

theorem punctuation_heading_no_rename:
  assumes "ascii_faithful H" and "\<forall>c \<in> set t. is_ascii_punctuation c \<and> c \<noteq> HYPHEN"
  shows "slugify H t = [] \<and>
         (vault_read H file = Inr data \<and>
          findHeading (split_lines data) (findNoteStart (split_lines data)) = Some h \<and>
          heading_text h = t \<longrightarrow> forceRenameFile H file w = (file, w))"
proof -
  have e: "slugify H t = []" using assms by (rule slugify_punctuation)
  then show ?thesis
    by (auto simp: forceRenameFile_target rename_target_empty_slug)
qed

theorem punctuation_heading_no_rename_witness:
  "slugify (reading (ascii ''# !?.'')) (ascii ''!?.'') = [] \<and>
   forceRenameFile (reading (ascii ''# !?.'')) note_file idle_world = (note_file, idle_world)"
proof -
  have a: "ascii_faithful (reading (ascii ''# !?.''))" by (rule reading_ascii_faithful)
  have p: "\<forall>c \<in> set (ascii ''!?.''). is_ascii_punctuation c \<and> c \<noteq> HYPHEN"
    by (simp add: ascii_def is_ascii_punctuation_def HYPHEN_def)
  have r: "vault_read (reading (ascii ''# !?.'')) note_file = Inr (ascii ''# !?.'')"
    by (simp add: reading_def)
  have f: "findHeading (split_lines (ascii ''# !?.'')) (findNoteStart (split_lines (ascii ''# !?.''))) =
      Some \<lparr> lineNumber = 0, heading_text = ascii ''!?.'', style = Prefix \<rparr>"
    by code_simp
  from punctuation_heading_no_rename [OF a p, of note_file "ascii ''# !?.''"
      "\<lparr> lineNumber = 0, heading_text = ascii ''!?.'', style = Prefix \<rparr>" idle_world] r f
  show ?thesis by simp
qed

text \<open>
  The claim as the specification states it: the hyphen is punctuation that slugify
  keeps. The slug of \<open>---\<close> is one hyphen, and a document with that heading is renamed
  to \<open>-.md\<close>.
\<close>

theorem hyphen_heading_counterexample:
  "list_all is_ascii_punctuation (ascii ''---'') \<and>
   slugify sample_host (ascii ''---'') = ascii ''-'' \<and>
   slugify sample_host (ascii ''---'') \<noteq> [] \<and>
   fst (forceRenameFile (reading (ascii ''# ---'')) note_file idle_world) =
     \<lparr> ident = 1, path = ascii ''docs/-.md'', parent_path = ascii ''docs'',
       basename = ascii ''-'', extension = ascii ''md'' \<rparr> \<and>
   rename_calls (snd (forceRenameFile (reading (ascii ''# ---'')) note_file idle_world)) =
     [\<lparr> in_flight = True, target = ascii ''docs/-.md'', resolved = True \<rparr>]"
  by code_simp








end
